theory Spec2Isabelle
  imports Complex_Main
begin

section \<open>Data of the relay server\<close>

text \<open>
  The program is \<^verbatim>\<open>udp_server.py\<close>: two module-level dictionaries, a room-code
  generator and one receive loop. A datagram is a byte string (\<open>char\<close> is a byte) and a
  participant is the address pair that \<^verbatim>\<open>recvfrom\<close> returns.
\<close>

type_synonym bytes = string
type_synonym address = "string \<times> nat"

text \<open>
  What \<^verbatim>\<open>json.loads\<close> can return. A JSON object is kept as the list of its
  items; \<^verbatim>\<open>None\<close> is \<open>JNull\<close>.
\<close>

datatype json =
    JNull
  | JBool bool
  | JInt int
  | JFloat rat
  | JStr string
  | JArr "json list"
  | JObj "(string \<times> json) list"

text \<open>
  The result of \<^verbatim>\<open>json.loads(data.decode())\<close>: the decoded value, a
  \<^verbatim>\<open>json.JSONDecodeError\<close>, or any other exception (\<^verbatim>\<open>UnicodeDecodeError\<close>
  from \<^verbatim>\<open>data.decode()\<close>, \<^verbatim>\<open>RecursionError\<close>). The decoder is library code
  and is a parameter of the model.
\<close>

datatype decoded = Decoded json | JSONDecodeError | OtherError

text \<open>
  What is handed to \<^verbatim>\<open>sendto\<close>: \<open>Dumps j\<close> stands for the bytes
  \<^verbatim>\<open>json.dumps(j).encode()\<close>, \<open>Raw d\<close> for the received bytes \<open>d\<close> themselves.
\<close>

datatype payload = Dumps json | Raw bytes

type_synonym sent = "(payload \<times> address) list"

text \<open>
  A room is the dictionary \<^verbatim>\<open>{"clients": {...}}\<close>. The Python set of clients is a
  duplicate-free list. Python iterates a set in an order of its own; the list is kept in
  the order of joining, and no statement below depends on the order.
\<close>

record room =
  clients :: "address list"

text \<open>
  The state: the dictionaries \<^verbatim>\<open>rooms\<close> and \<^verbatim>\<open>client_to_room\<close>, the loop's
  local variable \<^verbatim>\<open>addr\<close> (unbound until the first \<^verbatim>\<open>recvfrom\<close> returns, and
  kept from one iteration to the next), and the draws still to come from the
  \<^verbatim>\<open>random\<close> module.
\<close>

record state =
  rooms :: "string \<rightharpoonup> room"
  client_to_room :: "address \<rightharpoonup> string"
  addr :: "address option"
  rng :: "nat \<Rightarrow> nat"

section \<open>Room codes\<close>

definition alphabet :: string where
  "alphabet = ''ABCDEFGHIJKLMNOPQRSTUVWXYZ0123456789''"

text \<open>
  \<^verbatim>\<open>random.choices(population, k=length)\<close>: \<open>k\<close> independent picks of an index
  below the size of the population. Draw number \<open>i\<close> picks index \<open>draws i mod 36\<close>.
\<close>

definition choices :: "nat \<Rightarrow> (nat \<Rightarrow> nat) \<Rightarrow> string" where
  "choices k draws = map (\<lambda>i. alphabet ! (draws i mod length alphabet)) [0..<k]"

text \<open>
  \<^verbatim>\<open>generate_room_code\<close>: draw a candidate, return it when it is not a key of
  \<^verbatim>\<open>rooms\<close>, draw again otherwise. The loop has no bound, so the result is an
  option: \<open>None\<close> is "never returns". The second component is what is left of the draws.
\<close>

partial_function (option) generate_room_code ::
  "(string \<rightharpoonup> room) \<Rightarrow> nat \<Rightarrow> (nat \<Rightarrow> nat) \<Rightarrow> (string \<times> (nat \<Rightarrow> nat)) option"
where
  "generate_room_code rs len draws =
     (let code = choices len draws; rest = (\<lambda>i. draws (i + len))
      in if code \<in> dom rs then generate_room_code rs len rest else Some (code, rest))"

section \<open>The receive loop\<close>

text \<open>\<^verbatim>\<open>message.get(key)\<close> on a decoded object: \<^verbatim>\<open>None\<close> for a missing key.\<close>

definition dict_get :: "(string \<times> json) list \<Rightarrow> string \<Rightarrow> json" where
  "dict_get kvs k = (case map_of kvs k of None \<Rightarrow> JNull | Some v \<Rightarrow> v)"

text \<open>
  How the body of the \<^verbatim>\<open>try\<close> ends: normally (also by \<^verbatim>\<open>continue\<close>), by an
  exception for the first handler, or by one for the second.
\<close>

datatype completion = Normal | RaisedJSONDecodeError | RaisedException

text \<open>
  \<^verbatim>\<open>server_socket.sendto(p, a)\<close>. Whether the call raises is decided by the
  transport: \<open>accepts p a\<close> says that it returns; otherwise it raises and nothing is
  sent.
\<close>

definition sendto :: "(payload \<Rightarrow> address \<Rightarrow> bool) \<Rightarrow> payload \<Rightarrow> address \<Rightarrow> completion \<times> sent" where
  "sendto accepts p a = (if accepts p a then (Normal, [(p, a)]) else (RaisedException, []))"

text \<open>The \<^verbatim>\<open>for client_addr in rooms[room_code]["clients"]\<close> loop.\<close>

fun broadcast ::
  "(payload \<Rightarrow> address \<Rightarrow> bool) \<Rightarrow> bytes \<Rightarrow> address \<Rightarrow> address list \<Rightarrow> completion \<times> sent"
where
  "broadcast accepts data a [] = (Normal, [])"
| "broadcast accepts data a (client_addr # cs) =
     (if client_addr \<noteq> a then
        (if accepts (Raw data) client_addr then
           (case broadcast accepts data a cs of
              (c, out) \<Rightarrow> (c, (Raw data, client_addr) # out))
         else (RaisedException, []))
      else broadcast accepts data a cs)"

text \<open>\<^verbatim>\<open>clients.add(a)\<close> on the list that stands for the set.\<close>

definition set_add :: "address \<Rightarrow> address list \<Rightarrow> address list" where
  "set_add a xs = (if a \<in> set xs then xs else xs @ [a])"

definition room_created :: "string \<Rightarrow> payload" where
  "room_created room_code =
     Dumps (JObj [(''action'', JStr ''room_created''), (''room_code'', JStr room_code)])"

definition joined_room :: "json \<Rightarrow> payload" where
  "joined_room room_code =
     Dumps (JObj [(''action'', JStr ''joined_room''), (''room_code'', room_code)])"

definition room_not_found :: payload where
  "room_not_found =
     Dumps (JObj [(''action'', JStr ''error''), (''message'', JStr ''Room not found'')])"

text \<open>
  The three branches on \<^verbatim>\<open>action\<close>, for a message that is a dictionary. In the
  second, \<^verbatim>\<open>room_code in rooms\<close> is asked of a decoded value: the keys of
  \<^verbatim>\<open>rooms\<close> are strings, so no number, boolean or \<^verbatim>\<open>None\<close> is a key, and
  a list or a dictionary is unhashable, so that the test raises \<^verbatim>\<open>TypeError\<close>.
\<close>

definition route ::
  "(payload \<Rightarrow> address \<Rightarrow> bool) \<Rightarrow> state \<Rightarrow> bytes \<Rightarrow> address \<Rightarrow> (string \<times> json) list
     \<Rightarrow> (completion \<times> state \<times> sent) option"
where
  "route accepts s data a message =
     (let action = dict_get message ''action'' in
      if action = JStr ''create_room'' then
        (case generate_room_code (rooms s) 5 (rng s) of
           None \<Rightarrow> None
         | Some (room_code, rest) \<Rightarrow>
             (let s' = s\<lparr>rooms := (rooms s)(room_code \<mapsto> \<lparr>clients = [a]\<rparr>),
                        client_to_room := (client_to_room s)(a \<mapsto> room_code),
                        rng := rest\<rparr>;
                  (c, out) = sendto accepts (room_created room_code) a
              in Some (c, s', out)))
      else if action = JStr ''join_room'' then
        (let room_code = dict_get message ''room_code'' in
         case room_code of
           JArr xs \<Rightarrow> Some (RaisedException, s, [])
         | JObj kvs \<Rightarrow> Some (RaisedException, s, [])
         | JStr code \<Rightarrow>
             (case rooms s code of
                Some r \<Rightarrow>
                  (let s' = s\<lparr>rooms := (rooms s)(code \<mapsto> r\<lparr>clients := set_add a (clients r)\<rparr>),
                             client_to_room := (client_to_room s)(a \<mapsto> code)\<rparr>;
                       (c, out) = sendto accepts (joined_room room_code) a
                   in Some (c, s', out))
              | None \<Rightarrow>
                  (let (c, out) = sendto accepts room_not_found a in Some (c, s, out)))
         | _ \<Rightarrow>
             (let (c, out) = sendto accepts room_not_found a in Some (c, s, out)))
      else if action = JStr ''send_transform'' then
        (case client_to_room s a of
           Some room_code \<Rightarrow>
             (case rooms s room_code of
                Some r \<Rightarrow>
                  (let (c, out) = broadcast accepts data a (clients r) in Some (c, s, out))
              | None \<Rightarrow> Some (Normal, s, []))
         | None \<Rightarrow> Some (Normal, s, []))
      else Some (Normal, s, []))"

text \<open>
  The body of the \<^verbatim>\<open>try\<close> once \<^verbatim>\<open>recvfrom\<close> has returned \<open>(data, a)\<close>.
  A decoded value that is not a dictionary has no \<^verbatim>\<open>get\<close>: \<^verbatim>\<open>AttributeError\<close>.
\<close>

definition try_body ::
  "(bytes \<Rightarrow> decoded) \<Rightarrow> (payload \<Rightarrow> address \<Rightarrow> bool) \<Rightarrow> state \<Rightarrow> bytes \<Rightarrow> address
     \<Rightarrow> (completion \<times> state \<times> sent) option"
where
  "try_body loads accepts s data a =
     (if data = [] then Some (Normal, s, [])
      else (case loads data of
              JSONDecodeError \<Rightarrow> Some (RaisedJSONDecodeError, s, [])
            | OtherError \<Rightarrow> Some (RaisedException, s, [])
            | Decoded (JObj message) \<Rightarrow> route accepts s data a message
            | Decoded _ \<Rightarrow> Some (RaisedException, s, [])))"

text \<open>The handler \<^verbatim>\<open>except Exception\<close>, for a bound \<^verbatim>\<open>addr\<close>.\<close>

definition cleanup :: "state \<Rightarrow> address \<Rightarrow> state" where
  "cleanup s a =
     (case client_to_room s a of
        None \<Rightarrow> s
      | Some room_code \<Rightarrow>
          (let rs =
             (case rooms s room_code of
                None \<Rightarrow> rooms s
              | Some r \<Rightarrow>
                  if a \<in> set (clients r) then
                    (let cs = removeAll a (clients r)
                     in if cs = [] then (rooms s)(room_code := None)
                        else (rooms s)(room_code \<mapsto> r\<lparr>clients := cs\<rparr>))
                  else rooms s)
           in s\<lparr>rooms := rs, client_to_room := (client_to_room s)(a := None)\<rparr>))"

text \<open>
  One iteration of \<^verbatim>\<open>while True\<close>. \<^verbatim>\<open>recvfrom\<close> returns a datagram and its
  sender or raises. The iteration ends in a next state with the datagrams it sent, or
  ends the program: the second handler reads \<^verbatim>\<open>addr\<close>, and when \<^verbatim>\<open>recvfrom\<close>
  has never returned that name is unbound and the error leaves the loop.
\<close>

datatype event = Recv bytes address | RecvRaises

datatype outcome = Next state sent | Crash

definition handlers :: "completion \<times> state \<times> sent \<Rightarrow> outcome" where
  "handlers r =
     (case r of
        (Normal, s, out) \<Rightarrow> Next s out
      | (RaisedJSONDecodeError, s, out) \<Rightarrow> Next s out
      | (RaisedException, s, out) \<Rightarrow>
          (case addr s of None \<Rightarrow> Crash | Some a \<Rightarrow> Next (cleanup s a) out))"

definition iteration ::
  "(bytes \<Rightarrow> decoded) \<Rightarrow> (payload \<Rightarrow> address \<Rightarrow> bool) \<Rightarrow> state \<Rightarrow> event \<Rightarrow> outcome option"
where
  "iteration loads accepts s ev =
     (case ev of
        RecvRaises \<Rightarrow> Some (handlers (RaisedException, s, []))
      | Recv data a \<Rightarrow> map_option handlers (try_body loads accepts (s\<lparr>addr := Some a\<rparr>) data a))"

text \<open>
  The states the server can be in: it starts with both dictionaries empty and
  \<^verbatim>\<open>addr\<close> unbound, and goes on by iterations, whatever arrives and whatever the
  transport accepts.
\<close>

inductive reachable :: "(bytes \<Rightarrow> decoded) \<Rightarrow> state \<Rightarrow> bool" for loads where
  start: "reachable loads \<lparr>rooms = Map.empty, client_to_room = Map.empty, addr = None, rng = draws\<rparr>"
| step: "reachable loads s \<Longrightarrow> iteration loads accepts s ev = Some (Next s' out)
     \<Longrightarrow> reachable loads s'"

section \<open>Notions used in the statements\<close>

text \<open>
  The \<open>n\<close>-th candidate that \<^verbatim>\<open>generate_room_code\<close> draws: every candidate
  uses up \<open>len\<close> draws.
\<close>

definition candidate :: "nat \<Rightarrow> (nat \<Rightarrow> nat) \<Rightarrow> nat \<Rightarrow> string" where
  "candidate len draws n = choices len (\<lambda>i. draws (i + n * len))"

text \<open>
  A source of draws that gives every code of length \<open>len\<close> over the alphabet at some
  time (uniform draws do so with probability one).
\<close>

definition fair :: "nat \<Rightarrow> (nat \<Rightarrow> nat) \<Rightarrow> bool" where
  "fair len draws \<longleftrightarrow>
     (\<forall>code. length code = len \<and> set code \<subseteq> set alphabet \<longrightarrow> (\<exists>n. candidate len draws n = code))"

text \<open>
  Such a source: the \<open>n\<close>-th candidate spells the number \<open>n\<close> to the base 36, lowest
  digit first; \<open>number\<close> is the number that a list of digits spells.
\<close>

definition enumerating :: "nat \<Rightarrow> nat \<Rightarrow> nat" where
  "enumerating len i = (i div len) div 36 ^ (i mod len) mod 36"

fun number :: "nat list \<Rightarrow> nat" where
  "number [] = 0"
| "number (d # ds) = d + 36 * number ds"

text \<open>
  Two properties of a state. The first: whoever has an entry in \<^verbatim>\<open>client_to_room\<close>
  is a client of the room that the entry names. The second: no room of \<^verbatim>\<open>rooms\<close>
  has an empty set of clients.
\<close>

definition session_in_room :: "state \<Rightarrow> bool" where
  "session_in_room s \<longleftrightarrow>
     (\<forall>a c. client_to_room s a = Some c \<longrightarrow> (\<exists>r. rooms s c = Some r \<and> a \<in> set (clients r)))"

definition no_empty_room :: "state \<Rightarrow> bool" where
  "no_empty_room s \<longleftrightarrow> (\<forall>c r. rooms s c = Some r \<longrightarrow> clients r \<noteq> [])"

text \<open>
  The decoded values that cannot be asked of a dictionary: \<^verbatim>\<open>x in rooms\<close> raises
  \<^verbatim>\<open>TypeError\<close> for a list and for a dictionary.
\<close>

fun unhashable :: "json \<Rightarrow> bool" where
  "unhashable (JArr xs) = True"
| "unhashable (JObj kvs) = True"
| "unhashable v = False"

section \<open>Concrete datagrams and states\<close>

text \<open>
  Two participants, the datagrams they send, and a decoder that agrees with
  \<^verbatim>\<open>json.loads(data.decode())\<close> on these datagrams; they are used to run the
  model on concrete inputs.
\<close>

definition alice :: address where
  "alice = (''192.168.1.10'', 50001)"

definition bob :: address where
  "bob = (''192.168.1.11'', 50002)"

definition create_request :: bytes where
  \<open>create_request = ''{"action": "create_room"}''\<close>

definition join_request :: bytes where
  \<open>join_request = ''{"action": "join_room", "room_code": "ABCDE"}''\<close>

definition join_request_no_code :: bytes where
  \<open>join_request_no_code = ''{"action": "join_room"}''\<close>

definition join_request_list_code :: bytes where
  \<open>join_request_list_code = ''{"action": "join_room", "room_code": []}''\<close>

definition transform_request :: bytes where
  \<open>transform_request = ''{"action": "send_transform", "x": 1, "y": 2}''\<close>

definition list_datagram :: bytes where
  "list_datagram = ''[]''"

definition loads_demo :: "bytes \<Rightarrow> decoded" where
  "loads_demo d =
     (if d = create_request then Decoded (JObj [(''action'', JStr ''create_room'')])
      else if d = join_request then
        Decoded (JObj [(''action'', JStr ''join_room''), (''room_code'', JStr ''ABCDE'')])
      else if d = join_request_no_code then Decoded (JObj [(''action'', JStr ''join_room'')])
      else if d = join_request_list_code then
        Decoded (JObj [(''action'', JStr ''join_room''), (''room_code'', JArr [])])
      else if d = transform_request then
        Decoded (JObj [(''action'', JStr ''send_transform''), (''x'', JInt 1), (''y'', JInt 2)])
      else if d = list_datagram then Decoded (JArr [])
      else JSONDecodeError)"

text \<open>A transport that accepts everything, and draws that give ABCDE, FGHIJ, and so on.\<close>

definition accepts_all :: "payload \<Rightarrow> address \<Rightarrow> bool" where
  "accepts_all p a = True"

definition initial :: state where
  "initial = \<lparr>rooms = Map.empty, client_to_room = Map.empty, addr = None, rng = (\<lambda>i. i)\<rparr>"

text \<open>After alice's \<^verbatim>\<open>create_room\<close>; after bob then joins; after alice instead creates again.\<close>

definition alice_room :: state where
  "alice_room =
     \<lparr>rooms = [''ABCDE'' \<mapsto> \<lparr>clients = [alice]\<rparr>],
      client_to_room = [alice \<mapsto> ''ABCDE''],
      addr = Some alice, rng = (\<lambda>i. i + 5)\<rparr>"

definition shared_room :: state where
  "shared_room =
     \<lparr>rooms = [''ABCDE'' \<mapsto> \<lparr>clients = [alice, bob]\<rparr>],
      client_to_room = [alice \<mapsto> ''ABCDE'', bob \<mapsto> ''ABCDE''],
      addr = Some bob, rng = (\<lambda>i. i + 5)\<rparr>"

definition two_rooms :: state where
  "two_rooms =
     \<lparr>rooms = [''ABCDE'' \<mapsto> \<lparr>clients = [alice]\<rparr>, ''FGHIJ'' \<mapsto> \<lparr>clients = [alice]\<rparr>],
      client_to_room = [alice \<mapsto> ''FGHIJ''],
      addr = Some alice, rng = (\<lambda>i. i + 10)\<rparr>"

text \<open>
  Nobody in any room; and the room that alice has left behind, after the handler for
  exceptions has run for her in \<open>two_rooms\<close>.
\<close>

definition no_rooms :: state where
  "no_rooms =
     \<lparr>rooms = Map.empty, client_to_room = Map.empty, addr = Some alice, rng = (\<lambda>i. i + 5)\<rparr>"

definition abandoned_room :: state where
  "abandoned_room =
     \<lparr>rooms = [''ABCDE'' \<mapsto> \<lparr>clients = [alice]\<rparr>], client_to_room = Map.empty,
      addr = Some alice, rng = (\<lambda>i. i + 10)\<rparr>"

section \<open>The generator\<close>

lemma length_alphabet: "length alphabet = 36"
  by (simp add: alphabet_def)

lemma choices_length: "length (choices k draws) = k"
  by (simp add: choices_def)

lemma choices_alphabet: "set (choices k draws) \<subseteq> set alphabet"
proof -
  have "alphabet ! (draws i mod length alphabet) \<in> set alphabet" for i
    by (rule nth_mem) (simp add: length_alphabet)
  then show ?thesis by (auto simp: choices_def)
qed

lemma candidate_0: "candidate len draws 0 = choices len draws"
  by (simp add: candidate_def)

lemma candidate_Suc: "candidate len (\<lambda>i. draws (i + len)) n = candidate len draws (Suc n)"
  by (simp add: candidate_def ac_simps)

lemma generate_room_code_returns:
  assumes ret: "generate_room_code rs len draws = Some r"
  shows "\<exists>n. fst r = candidate len draws n \<and> fst r \<notin> dom rs"
proof (rule generate_room_code.raw_induct
    [where P = "\<lambda>rs len draws r. \<exists>n. fst r = candidate len draws n \<and> fst r \<notin> dom rs",
     OF _ ret])
  fix f :: "(string \<rightharpoonup> room) \<Rightarrow> nat \<Rightarrow> (nat \<Rightarrow> nat) \<Rightarrow> (string \<times> (nat \<Rightarrow> nat)) option"
    and rs len draws r
  assume IH: "\<And>rs len draws r. f rs len draws = Some r
      \<Longrightarrow> \<exists>n. fst r = candidate len draws n \<and> fst r \<notin> dom rs"
    and eq: "(let code = choices len draws; rest = \<lambda>i. draws (i + len)
         in if code \<in> dom rs then f rs len rest else Some (code, rest)) = Some r"
  show "\<exists>n. fst r = candidate len draws n \<and> fst r \<notin> dom rs"
  proof (cases "choices len draws \<in> dom rs")
    case True
    with eq have "f rs len (\<lambda>i. draws (i + len)) = Some r"
      by (simp add: Let_def)
    then obtain n where "fst r = candidate len (\<lambda>i. draws (i + len)) n" and "fst r \<notin> dom rs"
      using IH by blast
    then have "fst r = candidate len draws (Suc n) \<and> fst r \<notin> dom rs"
      by (simp add: candidate_Suc)
    then show ?thesis ..
  next
    case False
    with eq have "fst r = candidate len draws 0 \<and> fst r \<notin> dom rs"
      by (auto simp: Let_def candidate_0)
    then show ?thesis ..
  qed
qed

lemma generate_room_code_total:
  "candidate len draws n \<notin> dom rs \<Longrightarrow> \<exists>code rest. generate_room_code rs len draws = Some (code, rest)"
proof (induction n arbitrary: draws)
  case 0
  then show ?case
    by (subst generate_room_code.simps) (simp add: candidate_0)
next
  case (Suc n)
  show ?case
  proof (cases "choices len draws \<in> dom rs")
    case True
    from Suc.prems have "candidate len (\<lambda>i. draws (i + len)) n \<notin> dom rs"
      by (simp add: candidate_Suc)
    then obtain code rest where "generate_room_code rs len (\<lambda>i. draws (i + len)) = Some (code, rest)"
      using Suc.IH by blast
    with True show ?thesis
      by (subst generate_room_code.simps) simp
  next
    case False
    then show ?thesis
      by (subst generate_room_code.simps) simp
  qed
qed

lemma candidate_length: "length (candidate len draws n) = len"
  by (simp add: candidate_def choices_length)

lemma candidate_alphabet: "set (candidate len draws n) \<subseteq> set alphabet"
  by (simp add: candidate_def choices_alphabet)

lemma generate_room_code_code:
  assumes "generate_room_code rs len draws = Some (code, rest)"
  shows "length code = len \<and> set code \<subseteq> set alphabet \<and> code \<notin> dom rs"
proof -
  from generate_room_code_returns [OF assms] obtain n
    where "code = candidate len draws n" and "code \<notin> dom rs" by auto
  then show ?thesis by (simp add: candidate_length candidate_alphabet)
qed

text \<open>With every code of the asked length taken, no draw can end the loop.\<close>

lemma generate_room_code_registry_full:
  assumes "\<And>code. length code = len \<Longrightarrow> set code \<subseteq> set alphabet \<Longrightarrow> code \<in> dom rs"
  shows "generate_room_code rs len draws = None"
proof (cases "generate_room_code rs len draws")
  case None
  then show ?thesis .
next
  case (Some res)
  then have "generate_room_code rs len draws = Some (fst res, snd res)" by simp
  from generate_room_code_code [OF this] assms show ?thesis by blast
qed

lemma distinct_alphabet: "distinct alphabet"
  by (simp add: alphabet_def)

lemma card_alphabet: "card (set alphabet) = 36"
  using distinct_card [OF distinct_alphabet] by (simp add: length_alphabet)

lemma card_codes: "card {code. set code \<subseteq> set alphabet \<and> length code = len} = 36 ^ len"
  using card_lists_length_eq [of "set alphabet" len] by (simp add: card_alphabet)

lemma some_code_free:
  assumes "finite (dom rs)" and "card (dom rs) < 36 ^ len"
  shows "\<exists>code. length code = len \<and> set code \<subseteq> set alphabet \<and> code \<notin> dom rs"
proof (rule ccontr)
  assume "\<not> ?thesis"
  then have "{code. set code \<subseteq> set alphabet \<and> length code = len} \<subseteq> dom rs"
    by blast
  with assms(1) have "card {code. set code \<subseteq> set alphabet \<and> length code = len} \<le> card (dom rs)"
    by (rule card_mono)
  with assms(2) show False by (simp add: card_codes)
qed

text \<open>Without a fresh candidate among the draws the loop does not end.\<close>

lemma generate_never_fresh:
  assumes "\<And>n. candidate len draws n \<in> dom rs"
  shows "generate_room_code rs len draws = None"
proof (cases "generate_room_code rs len draws")
  case None
  then show ?thesis .
next
  case (Some res)
  from generate_room_code_returns [OF Some] obtain n
    where "fst res = candidate len draws n" and "fst res \<notin> dom rs" by blast
  with assms [of n] show ?thesis by simp
qed

lemma number_digit:
  "\<forall>d \<in> set ds. d < 36 \<Longrightarrow> i < length ds \<Longrightarrow> number ds div 36 ^ i mod 36 = ds ! i"
proof (induction ds arbitrary: i)
  case Nil
  then show ?case by simp
next
  case (Cons d ds)
  show ?case
  proof (cases i)
    case 0
    with Cons.prems show ?thesis by simp
  next
    case (Suc j)
    from Cons.prems have "d < 36" by simp
    then have "(d + 36 * number ds) div 36 = number ds" by simp
    then have "(d + 36 * number ds) div 36 ^ Suc j = number ds div 36 ^ j"
      by (simp add: div_mult2_eq)
    with Cons Suc show ?thesis by simp
  qed
qed

lemma alphabet_index: "ch \<in> set alphabet \<Longrightarrow> \<exists>d. d < 36 \<and> alphabet ! d = ch"
  using in_set_conv_nth [of ch alphabet] length_alphabet by metis

lemma code_digits:
  "set code \<subseteq> set alphabet \<Longrightarrow>
   \<exists>ds. length ds = length code \<and> (\<forall>d \<in> set ds. d < 36) \<and> code = map ((!) alphabet) ds"
proof (induction code)
  case Nil
  show ?case by simp
next
  case (Cons ch code)
  from Cons.prems have "set code \<subseteq> set alphabet" by simp
  from Cons.IH [OF this] obtain ds where ds: "length ds = length code" "\<forall>d \<in> set ds. d < 36"
    "code = map ((!) alphabet) ds" by blast
  from Cons.prems have "ch \<in> set alphabet" by simp
  from alphabet_index [OF this] obtain d where d: "d < 36" "alphabet ! d = ch" by blast
  have "length (d # ds) = length (ch # code) \<and> (\<forall>x \<in> set (d # ds). x < 36)
      \<and> ch # code = map ((!) alphabet) (d # ds)"
    using ds d by simp
  then show ?case by (rule exI)
qed

lemma candidate_enumerating:
  assumes "length ds = len" and "\<forall>d \<in> set ds. d < 36"
  shows "candidate len (enumerating len) (number ds) = map ((!) alphabet) ds"
proof (rule nth_equalityI)
  show "length (candidate len (enumerating len) (number ds)) = length (map ((!) alphabet) ds)"
    using assms(1) by (simp add: candidate_length)
next
  fix i
  assume "i < length (candidate len (enumerating len) (number ds))"
  then have i: "i < len" by (simp add: candidate_length)
  then have "(i + number ds * len) div len = number ds" and "(i + number ds * len) mod len = i"
    by simp_all
  then have "enumerating len (i + number ds * len) = number ds div 36 ^ i mod 36"
    by (simp add: enumerating_def)
  also have "\<dots> = ds ! i"
    using assms i by (simp add: number_digit)
  finally have e: "enumerating len (i + number ds * len) = ds ! i" .
  from assms i have "ds ! i < 36" by simp
  with i e assms(1) show "candidate len (enumerating len) (number ds) ! i = map ((!) alphabet) ds ! i"
    by (simp add: candidate_def choices_def length_alphabet)
qed

lemma fair_enumerating: "fair len (enumerating len)"
  unfolding fair_def
proof (intro allI impI)
  fix code
  assume c: "length code = len \<and> set code \<subseteq> set alphabet"
  then have "set code \<subseteq> set alphabet" by simp
  from code_digits [OF this] obtain ds where len: "length ds = length code"
    and small: "\<forall>d \<in> set ds. d < 36" and code: "code = map ((!) alphabet) ds"
    by blast
  from len c have "length ds = len" by simp
  from candidate_enumerating [OF this small] code
  have "candidate len (enumerating len) (number ds) = code" by simp
  then show "\<exists>n. candidate len (enumerating len) n = code" ..
qed

lemma candidates_enumerating:
  "candidate 5 (enumerating 5) 0 = ''AAAAA''" "candidate 5 (enumerating 5) (Suc 0) = ''BAAAA''"
  by (simp_all add: candidate_def choices_def enumerating_def alphabet_def upt_rec)

section \<open>The handler and the branches\<close>

lemma cleanup_client_to_room: "client_to_room (cleanup s a) = (client_to_room s)(a := None)"
  by (cases "client_to_room s a") (auto simp: cleanup_def Let_def)

lemma cleanup_rooms_other:
  "client_to_room s a \<noteq> Some c \<Longrightarrow> rooms (cleanup s a) c = rooms s c"
  by (cases "client_to_room s a") (auto simp: cleanup_def Let_def split: option.splits)

lemma cleanup_rooms_own:
  "client_to_room s a = Some c \<Longrightarrow>
   rooms (cleanup s a) c =
     (case rooms s c of
        None \<Rightarrow> None
      | Some r \<Rightarrow>
          if a \<in> set (clients r) then
            (if removeAll a (clients r) = [] then None
             else Some (r\<lparr>clients := removeAll a (clients r)\<rparr>))
          else Some r)"
  by (simp add: cleanup_def Let_def split: option.splits)

lemma removeAll_Nil_iff: "removeAll a xs = [] \<longleftrightarrow> set xs \<subseteq> {a}"
  by (induction xs) auto

lemma cleanup_session_in_room:
  assumes inv: "session_in_room s"
  shows "session_in_room (cleanup s a)"
  unfolding session_in_room_def
proof (intro allI impI)
  fix b c
  assume "client_to_room (cleanup s a) b = Some c"
  then have ba: "b \<noteq> a" and bc: "client_to_room s b = Some c"
    by (auto simp: cleanup_client_to_room split: if_splits)
  from inv bc obtain r where r: "rooms s c = Some r" and b: "b \<in> set (clients r)"
    unfolding session_in_room_def by blast
  show "\<exists>r. rooms (cleanup s a) c = Some r \<and> b \<in> set (clients r)"
  proof (cases "client_to_room s a = Some c")
    case True
    from b ba have "removeAll a (clients r) \<noteq> []"
      by (auto simp: removeAll_Nil_iff)
    with True r b ba show ?thesis
      by (simp add: cleanup_rooms_own)
  next
    case False
    with r b show ?thesis
      by (simp add: cleanup_rooms_other)
  qed
qed

lemma cleanup_no_empty_room:
  assumes inv: "no_empty_room s"
  shows "no_empty_room (cleanup s a)"
  unfolding no_empty_room_def
proof (intro allI impI)
  fix c r
  assume r: "rooms (cleanup s a) c = Some r"
  show "clients r \<noteq> []"
  proof (cases "client_to_room s a = Some c")
    case True
    with r show ?thesis
      using inv unfolding no_empty_room_def
      by (auto simp: cleanup_rooms_own split: option.splits if_splits)
  next
    case False
    with r inv show ?thesis
      unfolding no_empty_room_def by (simp add: cleanup_rooms_other)
  qed
qed

text \<open>What each branch on \<^verbatim>\<open>action\<close> does to the state.\<close>

lemma route_create:
  assumes "dict_get message ''action'' = JStr ''create_room''"
    and "route accepts s data a message = Some (c, s', out)"
  shows "\<exists>code rest. generate_room_code (rooms s) 5 (rng s) = Some (code, rest) \<and>
           s' = s\<lparr>rooms := (rooms s)(code \<mapsto> \<lparr>clients = [a]\<rparr>),
                  client_to_room := (client_to_room s)(a \<mapsto> code), rng := rest\<rparr> \<and>
           (c, out) = sendto accepts (room_created code) a"
  using assms by (auto simp: route_def Let_def split: option.splits prod.splits)

lemma route_join:
  assumes "dict_get message ''action'' = JStr ''join_room''"
    and "route accepts s data a message = Some (c, s', out)"
  shows "(\<exists>code r. dict_get message ''room_code'' = JStr code \<and> rooms s code = Some r \<and>
            s' = s\<lparr>rooms := (rooms s)(code \<mapsto> r\<lparr>clients := set_add a (clients r)\<rparr>),
                   client_to_room := (client_to_room s)(a \<mapsto> code)\<rparr> \<and>
            (c, out) = sendto accepts (joined_room (JStr code)) a)
         \<or> s' = s"
  using assms by (auto simp: route_def Let_def split: json.splits option.splits prod.splits)

lemma route_other:
  assumes "dict_get message ''action'' \<noteq> JStr ''create_room''"
    and "dict_get message ''action'' \<noteq> JStr ''join_room''"
    and "route accepts s data a message = Some (c, s', out)"
  shows "s' = s"
  using assms by (auto simp: route_def Let_def split: option.splits prod.splits if_splits)

lemma set_set_add: "set (set_add a xs) = insert a (set xs)"
  by (auto simp: set_add_def)

lemma set_add_not_Nil: "set_add a xs \<noteq> []"
  by (auto simp: set_add_def)

lemma iteration_preserves:
  assumes cl: "\<And>s a. P s \<Longrightarrow> P (cleanup s a)"
    and ad: "\<And>s x. P s \<Longrightarrow> P (s\<lparr>addr := x\<rparr>)"
    and cr: "\<And>s code a rest. P s \<Longrightarrow> code \<notin> dom (rooms s) \<Longrightarrow>
               P (s\<lparr>rooms := (rooms s)(code \<mapsto> \<lparr>clients = [a]\<rparr>),
                    client_to_room := (client_to_room s)(a \<mapsto> code), rng := rest\<rparr>)"
    and jn: "\<And>s code r a. P s \<Longrightarrow> rooms s code = Some r \<Longrightarrow>
               P (s\<lparr>rooms := (rooms s)(code \<mapsto> r\<lparr>clients := set_add a (clients r)\<rparr>),
                    client_to_room := (client_to_room s)(a \<mapsto> code)\<rparr>)"
    and P: "P s"
    and it: "iteration loads accepts s ev = Some (Next s' out)"
  shows "P s'"
proof -
  have route_P: "P t'" if "P t" and "route accepts t data a message = Some (c, t', out')"
    for t t' data a message c out'
  proof -
    consider (create) "dict_get message ''action'' = JStr ''create_room''"
      | (join) "dict_get message ''action'' = JStr ''join_room''"
      | (other) "dict_get message ''action'' \<noteq> JStr ''create_room''"
          "dict_get message ''action'' \<noteq> JStr ''join_room''"
      by blast
    then show ?thesis
    proof cases
      case create
      from route_create [OF create that(2)] obtain code rest where
        gen: "generate_room_code (rooms t) 5 (rng t) = Some (code, rest)"
        and t': "t' = t\<lparr>rooms := (rooms t)(code \<mapsto> \<lparr>clients = [a]\<rparr>),
                      client_to_room := (client_to_room t)(a \<mapsto> code), rng := rest\<rparr>"
        by blast
      from generate_room_code_returns [OF gen] have "code \<notin> dom (rooms t)" by simp
      with that(1) show ?thesis unfolding t' by (rule cr)
    next
      case join
      from route_join [OF join that(2)] that(1) show ?thesis
        by (auto intro: jn)
    next
      case other
      from route_other [OF other that(2)] that(1) show ?thesis by simp
    qed
  qed
  have handlers_P: "P t'" if "P t" and "handlers (c, t, out') = Next t' out''"
    for t t' c out' out''
    using that by (cases c) (auto simp: handlers_def cl split: option.splits)
  show ?thesis
  proof (cases ev)
    case RecvRaises
    with it P show ?thesis
      by (auto simp: iteration_def intro: handlers_P)
  next
    case (Recv data a)
    with it obtain c t out' where
      body: "try_body loads accepts (s\<lparr>addr := Some a\<rparr>) data a = Some (c, t, out')"
      and h: "handlers (c, t, out') = Next s' out"
      by (auto simp: iteration_def)
    from P have P0: "P (s\<lparr>addr := Some a\<rparr>)" by (rule ad)
    from body have "t = s\<lparr>addr := Some a\<rparr> \<or>
        (\<exists>message. route accepts (s\<lparr>addr := Some a\<rparr>) data a message = Some (c, t, out'))"
      by (auto simp: try_body_def split: if_splits decoded.splits json.splits)
    with P0 have "P t" by (auto intro: route_P)
    then show ?thesis using h by (rule handlers_P)
  qed
qed

lemma reachable_session_in_room: "reachable loads s \<Longrightarrow> session_in_room s"
proof (induction rule: reachable.induct)
  case (start draws)
  show ?case by (simp add: session_in_room_def)
next
  case (step s accepts ev s' out)
  show ?case
  proof (rule iteration_preserves [where P = session_in_room, OF _ _ _ _ step.IH step.hyps(2)])
    show "session_in_room (cleanup s a)" if "session_in_room s" for s a
      using that by (rule cleanup_session_in_room)
    show "session_in_room (s\<lparr>addr := x\<rparr>)" if "session_in_room s" for s x
      using that by (simp add: session_in_room_def)
    show "session_in_room (s\<lparr>rooms := (rooms s)(code \<mapsto> \<lparr>clients = [a]\<rparr>),
            client_to_room := (client_to_room s)(a \<mapsto> code), rng := rest\<rparr>)"
      if "session_in_room s" and "code \<notin> dom (rooms s)" for s code a rest
      using that unfolding session_in_room_def by auto
    show "session_in_room (s\<lparr>rooms := (rooms s)(code \<mapsto> r\<lparr>clients := set_add a (clients r)\<rparr>),
            client_to_room := (client_to_room s)(a \<mapsto> code)\<rparr>)"
      if "session_in_room s" and "rooms s code = Some r" for s code r a
      unfolding session_in_room_def
    proof (intro allI impI)
      fix b c
      assume b: "client_to_room (s\<lparr>rooms := (rooms s)(code \<mapsto> r\<lparr>clients := set_add a (clients r)\<rparr>),
            client_to_room := (client_to_room s)(a \<mapsto> code)\<rparr>) b = Some c"
      show "\<exists>r'. rooms (s\<lparr>rooms := (rooms s)(code \<mapsto> r\<lparr>clients := set_add a (clients r)\<rparr>),
            client_to_room := (client_to_room s)(a \<mapsto> code)\<rparr>) c = Some r' \<and> b \<in> set (clients r')"
      proof (cases "b = a")
        case True
        with b show ?thesis by (simp add: set_set_add)
      next
        case False
        with b have "client_to_room s b = Some c" by simp
        with that(1) obtain r' where "rooms s c = Some r'" and "b \<in> set (clients r')"
          unfolding session_in_room_def by blast
        with that(2) show ?thesis by (cases "c = code") (simp_all add: set_set_add)
      qed
    qed
  qed
qed

lemma reachable_no_empty_room: "reachable loads s \<Longrightarrow> no_empty_room s"
proof (induction rule: reachable.induct)
  case (start draws)
  show ?case by (simp add: no_empty_room_def)
next
  case (step s accepts ev s' out)
  show ?case
  proof (rule iteration_preserves [where P = no_empty_room, OF _ _ _ _ step.IH step.hyps(2)])
    show "no_empty_room (cleanup s a)" if "no_empty_room s" for s a
      using that by (rule cleanup_no_empty_room)
    show "no_empty_room (s\<lparr>addr := x\<rparr>)" if "no_empty_room s" for s x
      using that by (simp add: no_empty_room_def)
    show "no_empty_room (s\<lparr>rooms := (rooms s)(code \<mapsto> \<lparr>clients = [a]\<rparr>),
            client_to_room := (client_to_room s)(a \<mapsto> code), rng := rest\<rparr>)"
      if "no_empty_room s" and "code \<notin> dom (rooms s)" for s code a rest
      using that unfolding no_empty_room_def by auto
    show "no_empty_room (s\<lparr>rooms := (rooms s)(code \<mapsto> r\<lparr>clients := set_add a (clients r)\<rparr>),
            client_to_room := (client_to_room s)(a \<mapsto> code)\<rparr>)"
      if "no_empty_room s" and "rooms s code = Some r" for s code r a
      using that unfolding no_empty_room_def by (auto simp: set_add_not_Nil)
  qed
qed

text \<open>The lists of clients have no duplicates: they stand for sets.\<close>

lemma distinct_set_add: "distinct xs \<Longrightarrow> distinct (set_add a xs)"
  by (simp add: set_add_def)

lemma reachable_clients_distinct:
  assumes "reachable loads s" and "rooms s c = Some r"
  shows "distinct (clients r)"
proof -
  let ?P = "\<lambda>s. \<forall>c r. rooms s c = Some r \<longrightarrow> distinct (clients r)"
  from assms(1) have "?P s"
  proof (induction rule: reachable.induct)
    case (start draws)
    show ?case by simp
  next
    case (step s accepts ev s' out)
    show ?case
    proof (rule iteration_preserves [where P = ?P, OF _ _ _ _ step.IH step.hyps(2)])
      show "?P (cleanup s a)" if inv: "?P s" for s a
      proof (intro allI impI)
        fix c r
        assume r: "rooms (cleanup s a) c = Some r"
        show "distinct (clients r)"
        proof (cases "client_to_room s a = Some c")
          case True
          with r obtain r0 where r0: "rooms s c = Some r0"
            and "clients r = clients r0 \<or> clients r = removeAll a (clients r0)"
            by (auto simp: cleanup_rooms_own split: option.splits if_splits)
          moreover from inv r0 have "distinct (clients r0)" by blast
          ultimately show ?thesis by (auto simp: distinct_removeAll)
        next
          case False
          with r inv show ?thesis by (simp add: cleanup_rooms_other)
        qed
      qed
      show "?P (s\<lparr>addr := x\<rparr>)" if "?P s" for s x
        using that by simp
      show "?P (s\<lparr>rooms := (rooms s)(code \<mapsto> \<lparr>clients = [a]\<rparr>),
              client_to_room := (client_to_room s)(a \<mapsto> code), rng := rest\<rparr>)"
        if "?P s" and "code \<notin> dom (rooms s)" for s code a rest
        using that by auto
      show "?P (s\<lparr>rooms := (rooms s)(code \<mapsto> r\<lparr>clients := set_add a (clients r)\<rparr>),
              client_to_room := (client_to_room s)(a \<mapsto> code)\<rparr>)"
        if "?P s" and "rooms s code = Some r" for s code r a
        using that by (auto simp: distinct_set_add)
    qed
  qed
  with assms(2) show ?thesis by blast
qed

text \<open>
  Whoever has an entry in \<^verbatim>\<open>client_to_room\<close> is a client of the room that the
  entry names.
\<close>

lemma session_entry_is_member:
  assumes "reachable loads s" and "client_to_room s a = Some c"
  shows "\<exists>r. rooms s c = Some r \<and> a \<in> set (clients r)"
proof -
  from assms(1) have "session_in_room s" by (rule reachable_session_in_room)
  with assms(2) show ?thesis unfolding session_in_room_def by blast
qed

text \<open>\<^verbatim>\<open>rooms\<close> has finitely many keys.\<close>

lemma cleanup_dom_rooms: "dom (rooms (cleanup s a)) \<subseteq> dom (rooms s)"
  by (auto simp: cleanup_def Let_def split: option.splits if_splits)

lemma reachable_rooms_finite: "reachable loads s \<Longrightarrow> finite (dom (rooms s))"
proof (induction rule: reachable.induct)
  case (start draws)
  show ?case by simp
next
  case (step s accepts ev s' out)
  show ?case
  proof (rule iteration_preserves [where P = "\<lambda>s. finite (dom (rooms s))",
        OF _ _ _ _ step.IH step.hyps(2)])
    show "finite (dom (rooms (cleanup s a)))" if "finite (dom (rooms s))" for s a
      using cleanup_dom_rooms that by (rule finite_subset)
  qed simp_all
qed

section \<open>Concrete runs\<close>

lemmas datagram_defs =
  create_request_def join_request_def join_request_no_code_def join_request_list_code_def
  transform_request_def list_datagram_def

lemma loads_demo_simps:
  "loads_demo create_request = Decoded (JObj [(''action'', JStr ''create_room'')])"
  "loads_demo join_request =
     Decoded (JObj [(''action'', JStr ''join_room''), (''room_code'', JStr ''ABCDE'')])"
  "loads_demo join_request_no_code = Decoded (JObj [(''action'', JStr ''join_room'')])"
  "loads_demo join_request_list_code =
     Decoded (JObj [(''action'', JStr ''join_room''), (''room_code'', JArr [])])"
  "loads_demo transform_request =
     Decoded (JObj [(''action'', JStr ''send_transform''), (''x'', JInt 1), (''y'', JInt 2)])"
  "loads_demo list_datagram = Decoded (JArr [])"
  by (simp_all add: loads_demo_def datagram_defs)

lemma datagrams_not_empty:
  "create_request \<noteq> []" "join_request \<noteq> []" "join_request_no_code \<noteq> []"
  "join_request_list_code \<noteq> []" "transform_request \<noteq> []" "list_datagram \<noteq> []"
  by (simp_all add: datagram_defs)

lemma choices_first: "choices 5 (\<lambda>i. i) = ''ABCDE''"
  by (simp add: choices_def alphabet_def upt_rec)

lemma choices_second: "choices 5 (\<lambda>i. i + 5) = ''FGHIJ''"
  by (simp add: choices_def alphabet_def upt_rec)

lemma generate_first: "generate_room_code Map.empty 5 (\<lambda>i. i) = Some (''ABCDE'', \<lambda>i. i + 5)"
  by (subst generate_room_code.simps) (simp add: choices_first)

lemma generate_second:
  "generate_room_code [''ABCDE'' \<mapsto> r] 5 (\<lambda>i. i + 5) = Some (''FGHIJ'', \<lambda>i. i + 10)"
  by (subst generate_room_code.simps) (simp add: choices_second fun_eq_iff)

lemma alice_creates:
  "iteration loads_demo accepts_all initial (Recv create_request alice) =
     Some (Next alice_room [(room_created ''ABCDE'', alice)])"
  by (simp add: iteration_def try_body_def route_def dict_get_def handlers_def sendto_def
      loads_demo_simps datagrams_not_empty generate_first initial_def alice_room_def accepts_all_def)

lemma bob_joins:
  "iteration loads_demo accepts_all alice_room (Recv join_request bob) =
     Some (Next shared_room [(joined_room (JStr ''ABCDE''), bob)])"
  by (simp add: iteration_def try_body_def route_def dict_get_def handlers_def sendto_def
      loads_demo_simps datagrams_not_empty alice_room_def shared_room_def accepts_all_def
      set_add_def alice_def bob_def)

lemma alice_creates_again:
  "iteration loads_demo accepts_all alice_room (Recv create_request alice) =
     Some (Next two_rooms [(room_created ''FGHIJ'', alice)])"
  by (simp add: iteration_def try_body_def route_def dict_get_def handlers_def sendto_def
      loads_demo_simps datagrams_not_empty generate_second alice_room_def two_rooms_def
      accepts_all_def)

lemma reachable_initial: "reachable loads initial"
  unfolding initial_def by (rule reachable.start)

lemma reachable_alice_room: "reachable loads_demo alice_room"
  using reachable_initial alice_creates by (rule reachable.step)

lemma reachable_shared_room: "reachable loads_demo shared_room"
  using reachable_alice_room bob_joins by (rule reachable.step)

lemma reachable_two_rooms: "reachable loads_demo two_rooms"
  using reachable_alice_room alice_creates_again by (rule reachable.step)

lemma cleanup_alice_room: "cleanup alice_room alice = no_rooms"
  by (simp add: cleanup_def alice_room_def no_rooms_def)

section \<open>Lemmas on single iterations\<close>

lemma iteration_object:
  assumes "data \<noteq> []" and "loads data = Decoded (JObj message)"
  shows "iteration loads accepts s (Recv data a) =
           map_option handlers (route accepts (s\<lparr>addr := Some a\<rparr>) data a message)"
  using assms by (simp add: iteration_def try_body_def)

lemma broadcast_all_accepted:
  "\<forall>m \<in> set cs. m \<noteq> a \<longrightarrow> accepts (Raw data) m \<Longrightarrow>
   broadcast accepts data a cs = (Normal, map (Pair (Raw data)) (filter (\<lambda>m. m \<noteq> a) cs))"
  by (induction cs) auto

lemma join_unknown:
  assumes "data \<noteq> []" and "loads data = Decoded (JObj message)"
    and "dict_get message ''action'' = JStr ''join_room''"
    and "\<not> unhashable (dict_get message ''room_code'')"
    and "\<And>code. dict_get message ''room_code'' = JStr code \<Longrightarrow> rooms s code = None"
    and "accepts room_not_found a"
  shows "iteration loads accepts s (Recv data a) =
           Some (Next (s\<lparr>addr := Some a\<rparr>) [(room_not_found, a)])"
  using assms
  by (cases "dict_get message ''room_code''")
    (simp_all add: iteration_object route_def sendto_def handlers_def)

lemma undecodable_dropped:
  assumes "loads data = JSONDecodeError"
  shows "iteration loads accepts s (Recv data a) = Some (Next (s\<lparr>addr := Some a\<rparr>) [])"
  using assms by (simp add: iteration_def try_body_def handlers_def)

lemma unrecognized_action_dropped:
  assumes "loads data = Decoded (JObj message)"
    and "dict_get message ''action'' \<noteq> JStr ''create_room''"
    and "dict_get message ''action'' \<noteq> JStr ''join_room''"
    and "dict_get message ''action'' \<noteq> JStr ''send_transform''"
  shows "iteration loads accepts s (Recv data a) = Some (Next (s\<lparr>addr := Some a\<rparr>) [])"
  using assms by (simp add: iteration_def try_body_def route_def handlers_def)

lemma not_a_dictionary_runs_cleanup:
  assumes "data \<noteq> []" and "loads data = Decoded v" and "\<forall>message. v \<noteq> JObj message"
  shows "iteration loads accepts s (Recv data a) =
           Some (Next (cleanup (s\<lparr>addr := Some a\<rparr>) a) [])"
  using assms by (cases v) (simp_all add: iteration_def try_body_def handlers_def)

lemma join_unhashable_runs_cleanup:
  assumes "data \<noteq> []" and "loads data = Decoded (JObj message)"
    and "dict_get message ''action'' = JStr ''join_room''"
    and "unhashable (dict_get message ''room_code'')"
  shows "iteration loads accepts s (Recv data a) =
           Some (Next (cleanup (s\<lparr>addr := Some a\<rparr>) a) [])"
  using assms
  by (cases "dict_get message ''room_code''")
    (simp_all add: iteration_object route_def handlers_def)

text \<open>
  The state after \<open>a\<close> has created a room and got the code \<open>c\<close>, and \<open>b\<close> has
  joined \<open>c\<close> and got the answer: the entry of \<open>a\<close> names \<open>c\<close>, and both are
  clients of \<open>c\<close>.
\<close>

lemma created_then_joined:
  assumes "data1 \<noteq> []" and "loads data1 = Decoded (JObj m1)"
    and "dict_get m1 ''action'' = JStr ''create_room''"
    and "iteration loads acc1 s0 (Recv data1 a) = Some (Next s1 [(room_created c, a)])"
    and "data2 \<noteq> []" and "loads data2 = Decoded (JObj m2)"
    and "dict_get m2 ''action'' = JStr ''join_room''"
    and "dict_get m2 ''room_code'' = JStr c"
    and "iteration loads acc2 s1 (Recv data2 b) = Some (Next s2 [(joined_room (JStr c), b)])"
    and "b \<noteq> a"
  shows "client_to_room s2 a = Some c \<and> rooms s2 c = Some \<lparr>clients = [a, b]\<rparr>"
proof -
  from assms(4) obtain k t out' where
    r1: "route acc1 (s0\<lparr>addr := Some a\<rparr>) data1 a m1 = Some (k, t, out')"
    and h1: "handlers (k, t, out') = Next s1 [(room_created c, a)]"
    by (auto simp: iteration_object [where loads = loads and data = data1, OF assms(1,2)])
  from route_create [OF assms(3) r1] obtain code rest where
    t: "t = s0\<lparr>addr := Some a, rooms := (rooms s0)(code \<mapsto> \<lparr>clients = [a]\<rparr>),
                client_to_room := (client_to_room s0)(a \<mapsto> code), rng := rest\<rparr>"
    and snd1: "(k, out') = sendto acc1 (room_created code) a"
    by auto
  from snd1 h1 have "k = Normal" and "code = c"
    by (auto simp: sendto_def handlers_def room_created_def split: if_splits option.splits)
  with h1 t have "s1 = s0\<lparr>addr := Some a, rooms := (rooms s0)(c \<mapsto> \<lparr>clients = [a]\<rparr>),
                client_to_room := (client_to_room s0)(a \<mapsto> c), rng := rest\<rparr>"
    by (simp add: handlers_def)
  then have s1: "rooms s1 c = Some \<lparr>clients = [a]\<rparr>" "client_to_room s1 a = Some c"
    by simp_all
  from assms(9) obtain k2 t2 out2 where
    r2: "route acc2 (s1\<lparr>addr := Some b\<rparr>) data2 b m2 = Some (k2, t2, out2)"
    and h2: "handlers (k2, t2, out2) = Next s2 [(joined_room (JStr c), b)]"
    by (auto simp: iteration_object [where loads = loads and data = data2, OF assms(5,6)])
  from r2 s1 assms(7,8) have
    t2: "t2 = s1\<lparr>addr := Some b, rooms := (rooms s1)(c \<mapsto> \<lparr>clients = set_add b [a]\<rparr>),
                client_to_room := (client_to_room s1)(b \<mapsto> c)\<rparr>"
    and snd2: "(k2, out2) = sendto acc2 (joined_room (JStr c)) b"
    by (auto simp: route_def Let_def split: prod.splits)
  from snd2 h2 have "k2 = Normal"
    by (auto simp: sendto_def handlers_def split: if_splits option.splits)
  with h2 t2 have "s2 = s1\<lparr>addr := Some b, rooms := (rooms s1)(c \<mapsto> \<lparr>clients = set_add b [a]\<rparr>),
                client_to_room := (client_to_room s1)(b \<mapsto> c)\<rparr>"
    by (simp add: handlers_def)
  with s1 assms(10) show ?thesis
    by (simp add: set_add_def)
qed

section \<open>The claims\<close>

text \<open>
  In the statements below a request is a non-empty datagram \<open>data\<close> with
  \<open>loads data = Decoded (JObj message)\<close>, and its action is
  \<open>dict_get message ''action''\<close>. Where the server answers or relays, the statement
  asks that the transport takes the datagrams (\<open>accepts p a\<close>): a
  \<^verbatim>\<open>sendto\<close> that raises ends the iteration in the second handler.
\<close>

text \<open>
  Claim C1 on two \<^verbatim>\<open>create_room\<close> requests of alice. The second one stores the
  room FGHIJ and overwrites her entry in \<^verbatim>\<open>client_to_room\<close>, but does not take
  her out of ABCDE: the two dictionaries disagree about her. The handler for exceptions,
  which removes a client from the room that the entry names, then deletes FGHIJ and the
  entry and leaves her in ABCDE, a room that no later run of the handler can reach.
\<close>

theorem second_create_room_keeps_old_membership:
  "iteration loads_demo accepts_all initial (Recv create_request alice)
     = Some (Next alice_room [(room_created ''ABCDE'', alice)])
   \<and> iteration loads_demo accepts_all alice_room (Recv create_request alice)
     = Some (Next two_rooms [(room_created ''FGHIJ'', alice)])
   \<and> reachable loads_demo two_rooms
   \<and> rooms two_rooms ''ABCDE'' = Some \<lparr>clients = [alice]\<rparr>
   \<and> client_to_room two_rooms alice = Some ''FGHIJ''
   \<and> \<not> ((\<exists>r. rooms two_rooms ''ABCDE'' = Some r \<and> alice \<in> set (clients r))
          \<longleftrightarrow> client_to_room two_rooms alice = Some ''ABCDE'')
   \<and> iteration loads_demo accepts_all two_rooms RecvRaises = Some (Next abandoned_room [])"
proof -
  have "cleanup two_rooms alice = abandoned_room"
    by (simp add: cleanup_def two_rooms_def abandoned_room_def fun_eq_iff)
  then have "iteration loads_demo accepts_all two_rooms RecvRaises = Some (Next abandoned_room [])"
    by (simp add: iteration_def handlers_def two_rooms_def)
  moreover have "rooms two_rooms ''ABCDE'' = Some \<lparr>clients = [alice]\<rparr>"
    and "client_to_room two_rooms alice = Some ''FGHIJ''"
    by (simp_all add: two_rooms_def)
  ultimately show ?thesis
    using alice_creates alice_creates_again reachable_two_rooms by simp
qed

text \<open>
  Claim C2. In a state where \<^verbatim>\<open>client_to_room\<close> maps the sender \<open>a\<close> to the
  room \<open>c\<close> and \<open>b\<close> is another client of \<open>c\<close> (the state that
  \<open>created_then_joined\<close> describes, once \<open>a\<close> has created \<open>c\<close> and \<open>b\<close> has joined
  it), a \<^verbatim>\<open>send_transform\<close> datagram of \<open>a\<close> is sent, as the received bytes, to
  \<open>b\<close> and to every other client of \<open>c\<close>, nothing is sent to \<open>a\<close>, and the two
  dictionaries stay as they are.
\<close>

theorem transform_relayed:
  assumes "data \<noteq> []" and "loads data = Decoded (JObj message)"
    and "dict_get message ''action'' = JStr ''send_transform''"
    and "client_to_room s a = Some c" and "rooms s c = Some r"
    and "b \<in> set (clients r)" and "b \<noteq> a"
    and "\<forall>m \<in> set (clients r). m \<noteq> a \<longrightarrow> accepts (Raw data) m"
  shows "\<exists>out. iteration loads accepts s (Recv data a) = Some (Next (s\<lparr>addr := Some a\<rparr>) out)
     \<and> out = map (Pair (Raw data)) (filter (\<lambda>m. m \<noteq> a) (clients r))
     \<and> (Raw data, b) \<in> set out
     \<and> (\<forall>m. m \<in> set (clients r) \<and> m \<noteq> a \<longrightarrow> (Raw data, m) \<in> set out)
     \<and> (\<forall>p. (p, a) \<notin> set out)"
  using assms
  by (auto simp: iteration_object route_def handlers_def broadcast_all_accepted)

theorem transform_relayed_witness:
  "transform_request \<noteq> []
   \<and> loads_demo transform_request =
       Decoded (JObj [(''action'', JStr ''send_transform''), (''x'', JInt 1), (''y'', JInt 2)])
   \<and> dict_get [(''action'', JStr ''send_transform''), (''x'', JInt 1), (''y'', JInt 2)] ''action''
       = JStr ''send_transform''
   \<and> client_to_room shared_room alice = Some ''ABCDE''
   \<and> rooms shared_room ''ABCDE'' = Some \<lparr>clients = [alice, bob]\<rparr>
   \<and> bob \<in> set [alice, bob] \<and> bob \<noteq> alice
   \<and> accepts_all (Raw transform_request) bob
   \<and> iteration loads_demo accepts_all shared_room (Recv transform_request alice)
        = Some (Next (shared_room\<lparr>addr := Some alice\<rparr>) [(Raw transform_request, bob)])"
proof -
  have 1: "transform_request \<noteq> []"
    by (simp add: datagrams_not_empty)
  have 2: "loads_demo transform_request =
       Decoded (JObj [(''action'', JStr ''send_transform''), (''x'', JInt 1), (''y'', JInt 2)])"
    by (simp add: loads_demo_simps)
  have 3: "dict_get [(''action'', JStr ''send_transform''), (''x'', JInt 1), (''y'', JInt 2)] ''action''
       = JStr ''send_transform''"
    by (simp add: dict_get_def)
  have 4: "client_to_room shared_room alice = Some ''ABCDE''"
    by (simp add: shared_room_def alice_def bob_def)
  have 5: "rooms shared_room ''ABCDE'' = Some \<lparr>clients = [alice, bob]\<rparr>"
    by (simp add: shared_room_def)
  have 6: "bob \<in> set (clients \<lparr>clients = [alice, bob]\<rparr>)" and 7: "bob \<noteq> alice"
    by (simp_all add: alice_def bob_def)
  have 8: "\<forall>m \<in> set (clients \<lparr>clients = [alice, bob]\<rparr>).
      m \<noteq> alice \<longrightarrow> accepts_all (Raw transform_request) m"
    by (simp add: accepts_all_def)
  have 9: "accepts_all (Raw transform_request) bob"
    by (simp add: accepts_all_def)
  from transform_relayed
    [where loads = loads_demo and data = transform_request and accepts = accepts_all,
     OF 1 2 3 4 5 6 7 8] 1 2 3 4 5 6 7 9
  show ?thesis by simp
qed

text \<open>
  Claim C3 on a request whose \<^verbatim>\<open>room_code\<close> is a list. The list is no key of
  \<^verbatim>\<open>rooms\<close>, but the membership test raises \<^verbatim>\<open>TypeError\<close> before the
  \<^verbatim>\<open>else\<close> branch is reached: no reply is sent, and the handler for exceptions
  takes the sender out of her room, which is deleted with her.
\<close>

theorem join_with_list_code_runs_cleanup:
  "reachable loads_demo alice_room
   \<and> loads_demo join_request_list_code =
        Decoded (JObj [(''action'', JStr ''join_room''), (''room_code'', JArr [])])
   \<and> iteration loads_demo accepts_all alice_room (Recv join_request_list_code alice)
        = Some (Next no_rooms [])"
  using reachable_alice_room
  by (simp add: iteration_def try_body_def datagrams_not_empty loads_demo_simps route_def
      dict_get_def handlers_def cleanup_alice_room [unfolded alice_room_def]
      alice_room_def)

text \<open>
  Claim C4. No room of a reachable state has an empty set of clients. When the handler
  for exceptions runs for the only client of a room, the room is deleted by the handler
  itself, and a \<^verbatim>\<open>join_room\<close> request for its code that comes next is answered with
  "Room not found".
\<close>

theorem no_room_is_empty:
  "(reachable loads s \<and> rooms s c = Some r \<longrightarrow> clients r \<noteq> [])
   \<and> (addr t = Some a \<and> client_to_room t a = Some c' \<and> rooms t c' = Some r'
        \<and> set (clients r') = {a} \<longrightarrow>
      handlers (RaisedException, t, out) = Next (cleanup t a) out
      \<and> rooms (cleanup t a) c' = None
      \<and> (data \<noteq> [] \<and> loads data = Decoded (JObj message)
           \<and> dict_get message ''action'' = JStr ''join_room''
           \<and> dict_get message ''room_code'' = JStr c'
           \<and> accepts room_not_found b \<longrightarrow>
         iteration loads accepts (cleanup t a) (Recv data b) =
           Some (Next ((cleanup t a)\<lparr>addr := Some b\<rparr>) [(room_not_found, b)])))"
proof (rule conjI; rule impI)
  assume "reachable loads s \<and> rooms s c = Some r"
  then have "no_empty_room s" and "rooms s c = Some r"
    by (auto intro: reachable_no_empty_room)
  then show "clients r \<noteq> []"
    unfolding no_empty_room_def by blast
next
  assume h: "addr t = Some a \<and> client_to_room t a = Some c' \<and> rooms t c' = Some r'
        \<and> set (clients r') = {a}"
  then have gone: "rooms (cleanup t a) c' = None"
    by (simp add: cleanup_rooms_own removeAll_Nil_iff)
  from h have "handlers (RaisedException, t, out) = Next (cleanup t a) out"
    by (simp add: handlers_def)
  moreover have "iteration loads accepts (cleanup t a) (Recv data b) =
           Some (Next ((cleanup t a)\<lparr>addr := Some b\<rparr>) [(room_not_found, b)])"
    if "data \<noteq> [] \<and> loads data = Decoded (JObj message)
           \<and> dict_get message ''action'' = JStr ''join_room''
           \<and> dict_get message ''room_code'' = JStr c'
           \<and> accepts room_not_found b"
  proof (rule join_unknown)
    from that show "data \<noteq> []" and "loads data = Decoded (JObj message)"
      and "dict_get message ''action'' = JStr ''join_room''"
      and "accepts room_not_found b"
      by simp_all
    from that have rc: "dict_get message ''room_code'' = JStr c'" by simp
    then show "\<not> unhashable (dict_get message ''room_code'')" by simp
    show "rooms (cleanup t a) code = None" if "dict_get message ''room_code'' = JStr code" for code
      using that rc gone by simp
  qed
  ultimately show "handlers (RaisedException, t, out) = Next (cleanup t a) out
      \<and> rooms (cleanup t a) c' = None
      \<and> (data \<noteq> [] \<and> loads data = Decoded (JObj message)
           \<and> dict_get message ''action'' = JStr ''join_room''
           \<and> dict_get message ''room_code'' = JStr c'
           \<and> accepts room_not_found b \<longrightarrow>
         iteration loads accepts (cleanup t a) (Recv data b) =
           Some (Next ((cleanup t a)\<lparr>addr := Some b\<rparr>) [(room_not_found, b)]))"
    using gone by blast
qed

theorem no_room_is_empty_witness:
  "reachable loads_demo alice_room
   \<and> rooms alice_room ''ABCDE'' = Some \<lparr>clients = [alice]\<rparr>
   \<and> clients \<lparr>clients = [alice]\<rparr> \<noteq> []
   \<and> addr alice_room = Some alice
   \<and> client_to_room alice_room alice = Some ''ABCDE''
   \<and> set (clients \<lparr>clients = [alice]\<rparr>) = {alice}
   \<and> handlers (RaisedException, alice_room, []) = Next no_rooms []
   \<and> rooms no_rooms ''ABCDE'' = None
   \<and> join_request \<noteq> []
   \<and> loads_demo join_request =
        Decoded (JObj [(''action'', JStr ''join_room''), (''room_code'', JStr ''ABCDE'')])
   \<and> dict_get [(''action'', JStr ''join_room''), (''room_code'', JStr ''ABCDE'')] ''action''
        = JStr ''join_room''
   \<and> dict_get [(''action'', JStr ''join_room''), (''room_code'', JStr ''ABCDE'')] ''room_code''
        = JStr ''ABCDE''
   \<and> accepts_all room_not_found bob
   \<and> iteration loads_demo accepts_all no_rooms (Recv join_request bob) =
        Some (Next (no_rooms\<lparr>addr := Some bob\<rparr>) [(room_not_found, bob)])"
proof -
  have 1: "reachable loads_demo alice_room \<and> rooms alice_room ''ABCDE'' = Some \<lparr>clients = [alice]\<rparr>"
    using reachable_alice_room by (simp add: alice_room_def)
  have 2: "addr alice_room = Some alice \<and> client_to_room alice_room alice = Some ''ABCDE''
     \<and> rooms alice_room ''ABCDE'' = Some \<lparr>clients = [alice]\<rparr>
     \<and> set (clients \<lparr>clients = [alice]\<rparr>) = {alice}"
    by (simp add: alice_room_def)
  have 3: "join_request \<noteq> []
     \<and> loads_demo join_request =
        Decoded (JObj [(''action'', JStr ''join_room''), (''room_code'', JStr ''ABCDE'')])
     \<and> dict_get [(''action'', JStr ''join_room''), (''room_code'', JStr ''ABCDE'')] ''action''
        = JStr ''join_room''
     \<and> dict_get [(''action'', JStr ''join_room''), (''room_code'', JStr ''ABCDE'')] ''room_code''
        = JStr ''ABCDE''
     \<and> accepts_all room_not_found bob"
    by (simp add: datagrams_not_empty loads_demo_simps dict_get_def accepts_all_def)
  from no_room_is_empty
    [where loads = loads_demo and s = alice_room and c = "''ABCDE''"
       and r = "\<lparr>clients = [alice]\<rparr>" and t = alice_room and a = alice and c' = "''ABCDE''"
       and r' = "\<lparr>clients = [alice]\<rparr>" and out = "[]" and data = join_request
       and message = "[(''action'', JStr ''join_room''), (''room_code'', JStr ''ABCDE'')]"
       and accepts = accepts_all and b = bob]
    1 2 3
  show ?thesis by (simp add: cleanup_alice_room)
qed

text \<open>
  Claim C5. Whatever \<^verbatim>\<open>generate_room_code\<close> returns has the asked length, only
  capital letters and digits, and is no key of \<^verbatim>\<open>rooms\<close>; and a
  \<^verbatim>\<open>create_room\<close> request that is answered is answered with such a code of length
  5, under which the new room with the sender as its only client is stored.
\<close>

theorem room_code_shape_and_fresh:
  "(generate_room_code rs len draws = Some (code, rest) \<longrightarrow>
      length code = len \<and> set code \<subseteq> set alphabet \<and> code \<notin> dom rs)
   \<and> (data \<noteq> [] \<and> loads data = Decoded (JObj message)
        \<and> dict_get message ''action'' = JStr ''create_room''
        \<and> (\<forall>code. accepts (room_created code) a)
        \<and> iteration loads accepts s (Recv data a) = Some (Next s' out) \<longrightarrow>
      (\<exists>c. out = [(room_created c, a)]
          \<and> length c = 5 \<and> set c \<subseteq> set alphabet \<and> c \<notin> dom (rooms s)
          \<and> rooms s' = (rooms s)(c \<mapsto> \<lparr>clients = [a]\<rparr>)
          \<and> client_to_room s' = (client_to_room s)(a \<mapsto> c)))"
proof (rule conjI; rule impI)
  assume "generate_room_code rs len draws = Some (code, rest)"
  then show "length code = len \<and> set code \<subseteq> set alphabet \<and> code \<notin> dom rs"
    by (rule generate_room_code_code)
next
  assume h: "data \<noteq> [] \<and> loads data = Decoded (JObj message)
        \<and> dict_get message ''action'' = JStr ''create_room''
        \<and> (\<forall>code. accepts (room_created code) a)
        \<and> iteration loads accepts s (Recv data a) = Some (Next s' out)"
  then obtain c t out' where
    r: "route accepts (s\<lparr>addr := Some a\<rparr>) data a message = Some (c, t, out')"
    and hd: "handlers (c, t, out') = Next s' out"
    by (auto simp: iteration_object)
  from h have act: "dict_get message ''action'' = JStr ''create_room''" by simp
  from route_create [OF act r] obtain code' rest' where
    gen: "generate_room_code (rooms s) 5 (rng s) = Some (code', rest')"
    and t: "t = s\<lparr>addr := Some a, rooms := (rooms s)(code' \<mapsto> \<lparr>clients = [a]\<rparr>),
                  client_to_room := (client_to_room s)(a \<mapsto> code'), rng := rest'\<rparr>"
    and snd: "(c, out') = sendto accepts (room_created code') a"
    by auto
  from h snd have "c = Normal" and "out' = [(room_created code', a)]"
    by (simp_all add: sendto_def)
  with hd t have "s' = t" and "out = [(room_created code', a)]"
    by (simp_all add: handlers_def)
  with t generate_room_code_code [OF gen]
  have "out = [(room_created code', a)]
          \<and> length code' = 5 \<and> set code' \<subseteq> set alphabet \<and> code' \<notin> dom (rooms s)
          \<and> rooms s' = (rooms s)(code' \<mapsto> \<lparr>clients = [a]\<rparr>)
          \<and> client_to_room s' = (client_to_room s)(a \<mapsto> code')"
    by simp
  then show "\<exists>c. out = [(room_created c, a)]
          \<and> length c = 5 \<and> set c \<subseteq> set alphabet \<and> c \<notin> dom (rooms s)
          \<and> rooms s' = (rooms s)(c \<mapsto> \<lparr>clients = [a]\<rparr>)
          \<and> client_to_room s' = (client_to_room s)(a \<mapsto> c)"
    by (rule exI)
qed

theorem room_code_shape_and_fresh_witness:
  "generate_room_code [''ABCDE'' \<mapsto> \<lparr>clients = [alice]\<rparr>] 5 (\<lambda>i. i + 5)
      = Some (''FGHIJ'', \<lambda>i. i + 10)
   \<and> length ''FGHIJ'' = 5 \<and> set ''FGHIJ'' \<subseteq> set alphabet
   \<and> ''FGHIJ'' \<notin> dom [''ABCDE'' \<mapsto> \<lparr>clients = [alice]\<rparr>]
   \<and> create_request \<noteq> []
   \<and> loads_demo create_request = Decoded (JObj [(''action'', JStr ''create_room'')])
   \<and> dict_get [(''action'', JStr ''create_room'')] ''action'' = JStr ''create_room''
   \<and> (\<forall>code. accepts_all (room_created code) alice)
   \<and> iteration loads_demo accepts_all alice_room (Recv create_request alice)
        = Some (Next two_rooms [(room_created ''FGHIJ'', alice)])
   \<and> (\<exists>c. [(room_created ''FGHIJ'', alice)] = [(room_created c, alice)]
          \<and> length c = 5 \<and> set c \<subseteq> set alphabet \<and> c \<notin> dom (rooms alice_room)
          \<and> rooms two_rooms = (rooms alice_room)(c \<mapsto> \<lparr>clients = [alice]\<rparr>)
          \<and> client_to_room two_rooms = (client_to_room alice_room)(alice \<mapsto> c))"
proof -
  have g: "generate_room_code [''ABCDE'' \<mapsto> \<lparr>clients = [alice]\<rparr>] 5 (\<lambda>i. i + 5)
      = Some (''FGHIJ'', \<lambda>i. i + 10)"
    by (rule generate_second)
  have h: "create_request \<noteq> []
     \<and> loads_demo create_request = Decoded (JObj [(''action'', JStr ''create_room'')])
     \<and> dict_get [(''action'', JStr ''create_room'')] ''action'' = JStr ''create_room''
     \<and> (\<forall>code. accepts_all (room_created code) alice)
     \<and> iteration loads_demo accepts_all alice_room (Recv create_request alice)
          = Some (Next two_rooms [(room_created ''FGHIJ'', alice)])"
    by (simp add: datagrams_not_empty loads_demo_simps dict_get_def accepts_all_def
        alice_creates_again)
  from room_code_shape_and_fresh
    [where rs = "[''ABCDE'' \<mapsto> \<lparr>clients = [alice]\<rparr>]" and len = 5 and draws = "\<lambda>i. i + 5"
       and code = "''FGHIJ''" and rest = "\<lambda>i. i + 10"
       and data = create_request and loads = loads_demo
       and message = "[(''action'', JStr ''create_room'')]" and accepts = accepts_all
       and a = alice and s = alice_room and s' = two_rooms
       and out = "[(room_created ''FGHIJ'', alice)]"]
    g h
  show ?thesis by blast
qed

text \<open>
  Claim C6. A \<^verbatim>\<open>send_transform\<close> datagram from a sender without an entry in
  \<^verbatim>\<open>client_to_room\<close> sends nothing to anyone, and leaves \<^verbatim>\<open>rooms\<close> and
  \<^verbatim>\<open>client_to_room\<close> as they are.
\<close>

theorem transform_without_session:
  assumes "loads data = Decoded (JObj message)"
    and "dict_get message ''action'' = JStr ''send_transform''"
    and "client_to_room s a = None"
  shows "iteration loads accepts s (Recv data a) = Some (Next (s\<lparr>addr := Some a\<rparr>) [])
     \<and> rooms (s\<lparr>addr := Some a\<rparr>) = rooms s
     \<and> client_to_room (s\<lparr>addr := Some a\<rparr>) = client_to_room s"
  using assms by (simp add: iteration_def try_body_def route_def handlers_def)

theorem transform_without_session_witness:
  "loads_demo transform_request =
     Decoded (JObj [(''action'', JStr ''send_transform''), (''x'', JInt 1), (''y'', JInt 2)])
   \<and> dict_get [(''action'', JStr ''send_transform''), (''x'', JInt 1), (''y'', JInt 2)] ''action''
       = JStr ''send_transform''
   \<and> client_to_room alice_room bob = None
   \<and> iteration loads_demo accepts_all alice_room (Recv transform_request bob)
       = Some (Next (alice_room\<lparr>addr := Some bob\<rparr>) [])"
proof -
  have l: "loads_demo transform_request =
     Decoded (JObj [(''action'', JStr ''send_transform''), (''x'', JInt 1), (''y'', JInt 2)])"
    by (simp add: loads_demo_simps)
  have g: "dict_get [(''action'', JStr ''send_transform''), (''x'', JInt 1), (''y'', JInt 2)] ''action''
       = JStr ''send_transform''"
    by (simp add: dict_get_def)
  have c: "client_to_room alice_room bob = None"
    by (simp add: alice_room_def alice_def bob_def)
  from transform_without_session
    [where loads = loads_demo and data = transform_request and s = alice_room and a = bob
       and accepts = accepts_all, OF l g c] l g c
  show ?thesis by simp
qed

text \<open>
  Claim C7 on the datagram \<^verbatim>\<open>[]\<close>, which is JSON but no dictionary. It gets no
  reply, but \<^verbatim>\<open>message.get\<close> raises \<^verbatim>\<open>AttributeError\<close>, which is no
  \<^verbatim>\<open>JSONDecodeError\<close>: the handler for exceptions takes the sender out of her room,
  which is deleted with her.
\<close>

theorem json_list_runs_cleanup:
  "reachable loads_demo alice_room
   \<and> loads_demo list_datagram = Decoded (JArr [])
   \<and> iteration loads_demo accepts_all alice_room (Recv list_datagram alice)
        = Some (Next no_rooms [])"
  using reachable_alice_room
  by (simp add: iteration_def try_body_def datagrams_not_empty loads_demo_simps
      handlers_def cleanup_alice_room [unfolded alice_room_def] alice_room_def)

text \<open>
  Claim C8. With fewer than \<open>36 ^ len\<close> keys in \<^verbatim>\<open>rooms\<close>, and a source of
  draws that gives every code of that length at some time, \<^verbatim>\<open>generate_room_code\<close>
  returns, and what it returns is a code of the asked length over the alphabet that is no
  key of \<^verbatim>\<open>rooms\<close>.
\<close>

theorem generate_room_code_terminates:
  assumes "fair len draws" and "finite (dom rs)" and "card (dom rs) < 36 ^ len"
  shows "\<exists>code rest. generate_room_code rs len draws = Some (code, rest)
     \<and> code \<notin> dom rs \<and> length code = len \<and> set code \<subseteq> set alphabet"
proof -
  from some_code_free [OF assms(2,3)] obtain c where
    "length c = len" and "set c \<subseteq> set alphabet" and free: "c \<notin> dom rs"
    by blast
  with assms(1) obtain n where "candidate len draws n = c"
    unfolding fair_def by blast
  with free have "candidate len draws n \<notin> dom rs" by simp
  from generate_room_code_total [OF this] obtain code rest
    where "generate_room_code rs len draws = Some (code, rest)" by blast
  with generate_room_code_code [OF this] show ?thesis by blast
qed

theorem generate_room_code_terminates_witness:
  "fair 5 (enumerating 5)
   \<and> finite (dom [''AAAAA'' \<mapsto> \<lparr>clients = [alice]\<rparr>])
   \<and> card (dom [''AAAAA'' \<mapsto> \<lparr>clients = [alice]\<rparr>]) < 36 ^ 5
   \<and> (\<exists>code rest.
         generate_room_code [''AAAAA'' \<mapsto> \<lparr>clients = [alice]\<rparr>] 5 (enumerating 5) = Some (code, rest)
         \<and> code \<notin> dom [''AAAAA'' \<mapsto> \<lparr>clients = [alice]\<rparr>]
         \<and> length code = 5 \<and> set code \<subseteq> set alphabet)"
proof -
  have 1: "fair 5 (enumerating 5)" by (rule fair_enumerating)
  have 2: "finite (dom [''AAAAA'' \<mapsto> \<lparr>clients = [alice]\<rparr>])" by simp
  have "card (dom [''AAAAA'' \<mapsto> \<lparr>clients = [alice]\<rparr>]) = 1" by simp
  then have 3: "card (dom [''AAAAA'' \<mapsto> \<lparr>clients = [alice]\<rparr>]) < 36 ^ 5" by simp
  from generate_room_code_terminates [OF 1 2 3] have 4: "\<exists>code rest.
         generate_room_code [''AAAAA'' \<mapsto> \<lparr>clients = [alice]\<rparr>] 5 (enumerating 5) = Some (code, rest)
         \<and> code \<notin> dom [''AAAAA'' \<mapsto> \<lparr>clients = [alice]\<rparr>]
         \<and> length code = 5 \<and> set code \<subseteq> set alphabet" .
  from 1 2 3 4 show ?thesis by (intro conjI)
qed

text \<open>
  Claim C9. A \<^verbatim>\<open>join_room\<close> request without the key \<^verbatim>\<open>room_code\<close> is
  answered with the one reply "Room not found", and \<^verbatim>\<open>rooms\<close> and
  \<^verbatim>\<open>client_to_room\<close> stay as they are.
\<close>

theorem join_without_room_code:
  assumes "data \<noteq> []" and "loads data = Decoded (JObj message)"
    and "dict_get message ''action'' = JStr ''join_room''"
    and "map_of message ''room_code'' = None"
    and "accepts room_not_found a"
  shows "iteration loads accepts s (Recv data a) =
           Some (Next (s\<lparr>addr := Some a\<rparr>) [(room_not_found, a)])
     \<and> rooms (s\<lparr>addr := Some a\<rparr>) = rooms s
     \<and> client_to_room (s\<lparr>addr := Some a\<rparr>) = client_to_room s"
proof -
  from assms(4) have none: "dict_get message ''room_code'' = JNull"
    by (simp add: dict_get_def)
  have "iteration loads accepts s (Recv data a) =
           Some (Next (s\<lparr>addr := Some a\<rparr>) [(room_not_found, a)])"
    using assms(1,2,3) _ _ assms(5) by (rule join_unknown) (simp_all add: none)
  then show ?thesis by simp
qed

theorem join_without_room_code_witness:
  "join_request_no_code \<noteq> []
   \<and> loads_demo join_request_no_code = Decoded (JObj [(''action'', JStr ''join_room'')])
   \<and> dict_get [(''action'', JStr ''join_room'')] ''action'' = JStr ''join_room''
   \<and> map_of [(''action'', JStr ''join_room'')] ''room_code'' = None
   \<and> accepts_all room_not_found bob
   \<and> iteration loads_demo accepts_all alice_room (Recv join_request_no_code bob)
        = Some (Next (alice_room\<lparr>addr := Some bob\<rparr>) [(room_not_found, bob)])"
proof -
  have 1: "join_request_no_code \<noteq> []"
    by (simp add: datagrams_not_empty)
  have 2: "loads_demo join_request_no_code = Decoded (JObj [(''action'', JStr ''join_room'')])"
    by (simp add: loads_demo_simps)
  have 3: "dict_get [(''action'', JStr ''join_room'')] ''action'' = JStr ''join_room''"
    by (simp add: dict_get_def)
  have 4: "map_of [(''action'', JStr ''join_room'')] ''room_code'' = None"
    by simp
  have 5: "accepts_all room_not_found bob"
    by (simp add: accepts_all_def)
  from join_without_room_code
    [where loads = loads_demo and data = join_request_no_code and accepts = accepts_all
       and s = alice_room, OF 1 2 3 4 5] 1 2 3 4 5
  show ?thesis by simp
qed

text \<open>
  Claim C10. A datagram of length zero is skipped whatever the decoder would make of it:
  nothing is sent, and \<^verbatim>\<open>rooms\<close> and \<^verbatim>\<open>client_to_room\<close> stay as they are.
\<close>

theorem empty_datagram_skipped:
  "iteration loads accepts s (Recv [] a) = Some (Next (s\<lparr>addr := Some a\<rparr>) [])
   \<and> rooms (s\<lparr>addr := Some a\<rparr>) = rooms s
   \<and> client_to_room (s\<lparr>addr := Some a\<rparr>) = client_to_room s"
  by (simp add: iteration_def try_body_def handlers_def)

end
